theory Spec2Isabelle
  imports Main
begin

section \<open>The board of lab_1/part1.py\<close>

text \<open>
  A cell of the board holds either the empty string or a number. The board is a list of
  rows. Every row of the program is a list object of its own (\<open>init\<close> builds each row
  separately, \<open>slideLeftAndMergeRow\<close> and \<open>transposeBoard\<close> return fresh lists), so rows
  are modelled as values.
\<close>

datatype cell = Empty | Num int

type_synonym row = "cell list"
type_synonym board = "cell list list"

datatype error = IndexError | RuntimeError

text \<open>\<open>x * 2\<close>: a number is doubled, and the empty string repeated twice is the empty string.\<close>

fun times2 :: "cell \<Rightarrow> cell" where
  "times2 Empty = Empty"
| "times2 (Num v) = Num (v * 2)"

text \<open>\<open>board[row][col]\<close>, read and written, with the indices a \<open>range\<close> produces.\<close>

definition get_cell :: "board \<Rightarrow> nat \<Rightarrow> nat \<Rightarrow> error + cell" where
  "get_cell board r c =
     (if r < length board \<and> c < length (board ! r) then Inr (board ! r ! c)
      else Inl IndexError)"

definition set_cell :: "board \<Rightarrow> nat \<times> nat \<Rightarrow> cell \<Rightarrow> error + board" where
  "set_cell board rc v =
     (case rc of (r, c) \<Rightarrow>
        if r < length board \<and> c < length (board ! r)
        then Inr (board[r := (board ! r)[c := v]])
        else Inl IndexError)"

subsection \<open>Random draws\<close>

text \<open>
  \<open>random.choice(seq)\<close> returns \<open>seq[k]\<close> for a \<open>k\<close> drawn from \<open>range(len(seq))\<close>. The
  draw is a parameter of the model, reduced modulo the length: every value of the
  parameter is a possible draw, and every possible draw is a value of the parameter.
  \<open>random.sample(range(16), 2)\<close> draws a first number among the sixteen and a second one
  among the fifteen that are left.
\<close>

definition random_choice :: "nat \<Rightarrow> 'a list \<Rightarrow> 'a" where
  "random_choice draw xs = xs ! (draw mod length xs)"

definition random_sample2 :: "nat \<Rightarrow> nat \<Rightarrow> nat list" where
  "random_sample2 draw1 draw2 =
     (let population = [0..<16];
          n0 = random_choice draw1 population;
          n1 = random_choice draw2 (remove1 n0 population)
      in [n0, n1])"

subsection \<open>init\<close>

fun init_row :: "nat list \<Rightarrow> row \<Rightarrow> row" where
  "init_row [] rowList = rowList"
| "init_row (_ # ks) rowList = init_row ks (rowList @ [Empty])"

fun init_rows :: "nat list \<Rightarrow> board \<Rightarrow> board" where
  "init_rows [] board = board"
| "init_rows (_ # ks) board = init_rows ks (board @ [init_row [0..<4] []])"

fun place_twos :: "(nat \<times> nat) list \<Rightarrow> board \<Rightarrow> error option \<times> board" where
  "place_twos [] board = (None, board)"
| "place_twos (cell # cells) board =
     (case set_cell board cell (Num 2) of
        Inl e \<Rightarrow> (Some e, board)
      | Inr board' \<Rightarrow> place_twos cells board')"

text \<open>
  \<open>init\<close> appends four rows of four empty cells to the global board and puts a 2 on
  each of the two sampled cells. The result is the exception raised, if any, and the
  board left behind. The welcome message is not modelled.
\<close>

definition init :: "nat \<Rightarrow> nat \<Rightarrow> board \<Rightarrow> error option \<times> board" where
  "init draw1 draw2 board =
     (let board1 = init_rows [0..<4] board;
          twoRandomNumbers = random_sample2 draw1 draw2;
          twoRandomCells =
            [(twoRandomNumbers ! 0 div 4, twoRandomNumbers ! 0 mod 4),
             (twoRandomNumbers ! 1 div 4, twoRandomNumbers ! 1 mod 4)]
      in place_twos twoRandomCells board1)"

text \<open>The module's initial value of the global: \<open>board: list[list] = []\<close>.\<close>

definition initial_board :: board where
  "initial_board = []"

subsection \<open>addANewTwoToBoard\<close>

fun collect_cols :: "board \<Rightarrow> nat \<Rightarrow> nat list \<Rightarrow> (nat \<times> nat) list \<Rightarrow> error + (nat \<times> nat) list" where
  "collect_cols board r [] empty_cells = Inr empty_cells"
| "collect_cols board r (c # cs) empty_cells =
     (case get_cell board r c of
        Inl e \<Rightarrow> Inl e
      | Inr x \<Rightarrow>
          if x = Empty then collect_cols board r cs (empty_cells @ [(r, c)])
          else collect_cols board r cs empty_cells)"

fun collect_rows :: "board \<Rightarrow> nat \<Rightarrow> nat list \<Rightarrow> (nat \<times> nat) list \<Rightarrow> error + (nat \<times> nat) list" where
  "collect_rows board col_size [] empty_cells = Inr empty_cells"
| "collect_rows board col_size (r # rs) empty_cells =
     (case collect_cols board r [0..<col_size] empty_cells of
        Inl e \<Rightarrow> Inl e
      | Inr empty_cells' \<Rightarrow> collect_rows board col_size rs empty_cells')"

definition addANewTwoToBoard :: "nat \<Rightarrow> board \<Rightarrow> error option \<times> board" where
  "addANewTwoToBoard draw board =
     (if board = [] then (Some IndexError, board)
      else
        let row_size = length board;
            col_size = length (board ! 0)
        in case collect_rows board col_size [0..<row_size] [] of
             Inl e \<Rightarrow> (Some e, board)
           | Inr empty_cells \<Rightarrow>
               if empty_cells \<noteq> [] then
                 (case set_cell board (random_choice draw empty_cells) (Num 2) of
                    Inl e \<Rightarrow> (Some e, board)
                  | Inr board' \<Rightarrow> (None, board'))
               else (None, board))"

subsection \<open>isFull\<close>

text \<open>
  The inner loop answers \<open>Inr False\<close> when it has hit the early \<open>return False\<close> and
  \<open>Inr True\<close> when it has run to its end.
\<close>

fun full_cols :: "board \<Rightarrow> nat \<Rightarrow> nat list \<Rightarrow> error + bool" where
  "full_cols board r [] = Inr True"
| "full_cols board r (c # cs) =
     (case get_cell board r c of
        Inl e \<Rightarrow> Inl e
      | Inr x \<Rightarrow> if x = Empty then Inr False else full_cols board r cs)"

fun full_rows :: "board \<Rightarrow> nat \<Rightarrow> nat list \<Rightarrow> error + bool" where
  "full_rows board col_size [] = Inr True"
| "full_rows board col_size (r # rs) =
     (case full_cols board r [0..<col_size] of
        Inl e \<Rightarrow> Inl e
      | Inr False \<Rightarrow> Inr False
      | Inr True \<Rightarrow> full_rows board col_size rs)"

definition isFull :: "board \<Rightarrow> error + bool" where
  "isFull board =
     (if board = [] then Inl IndexError
      else
        let row_size = length board;
            col_size = length (board ! 0)
        in full_rows board col_size [0..<row_size])"

subsection \<open>getCurrentScore\<close>

fun score_cols :: "board \<Rightarrow> nat \<Rightarrow> nat list \<Rightarrow> int \<Rightarrow> error + int" where
  "score_cols board r [] current_score = Inr current_score"
| "score_cols board r (c # cs) current_score =
     (case get_cell board r c of
        Inl e \<Rightarrow> Inl e
      | Inr Empty \<Rightarrow> score_cols board r cs current_score
      | Inr (Num v) \<Rightarrow> score_cols board r cs (current_score + v))"

fun score_rows :: "board \<Rightarrow> nat \<Rightarrow> nat list \<Rightarrow> int \<Rightarrow> error + int" where
  "score_rows board col_size [] current_score = Inr current_score"
| "score_rows board col_size (r # rs) current_score =
     (case score_cols board r [0..<col_size] current_score of
        Inl e \<Rightarrow> Inl e
      | Inr current_score' \<Rightarrow> score_rows board col_size rs current_score')"

definition getCurrentScore :: "board \<Rightarrow> error + int" where
  "getCurrentScore board =
     (if board = [] then Inl IndexError
      else
        let row_size = length board;
            col_size = length (board ! 0)
        in score_rows board col_size [0..<row_size] 0)"

subsection \<open>slideLeftAndMergeRow\<close>

text \<open>
  The \<open>for index in range(...)\<close> loop, with its flag \<open>is_merged\<close> and the list
  \<open>final_cell\<close> it appends to.
\<close>

fun merge_loop :: "row \<Rightarrow> nat list \<Rightarrow> bool \<Rightarrow> row \<Rightarrow> row" where
  "merge_loop non_empty_cells [] is_merged final_cell = final_cell"
| "merge_loop non_empty_cells (index # rest) is_merged final_cell =
     (if is_merged then merge_loop non_empty_cells rest False final_cell
      else if index + 1 < length non_empty_cells
              \<and> non_empty_cells ! index = non_empty_cells ! (index + 1)
      then merge_loop non_empty_cells rest True (final_cell @ [times2 (non_empty_cells ! index)])
      else merge_loop non_empty_cells rest False (final_cell @ [non_empty_cells ! index]))"

text \<open>\<open>while len(final_cell) < len(row_array): final_cell.append("")\<close>\<close>

function fill_loop :: "nat \<Rightarrow> row \<Rightarrow> row" where
  "fill_loop n final_cell =
     (if length final_cell < n then fill_loop n (final_cell @ [Empty]) else final_cell)"
  by pat_completeness auto
termination
  by (relation "measure (\<lambda>(n, final_cell). n - length final_cell)") auto

declare fill_loop.simps [simp del]

definition slideLeftAndMergeRow :: "row \<Rightarrow> row" where
  "slideLeftAndMergeRow row_array =
     (let non_empty_cells = filter (\<lambda>x. x \<noteq> Empty) row_array;
          non_empty_array_length = length non_empty_cells;
          final_cell = merge_loop non_empty_cells [0..<non_empty_array_length] False []
      in fill_loop (length row_array) final_cell)"

subsection \<open>transposeBoard\<close>

fun transpose_col :: "board \<Rightarrow> nat \<Rightarrow> nat list \<Rightarrow> row \<Rightarrow> error + row" where
  "transpose_col current_board c [] new_row = Inr new_row"
| "transpose_col current_board c (r # rs) new_row =
     (case get_cell current_board r c of
        Inl e \<Rightarrow> Inl e
      | Inr x \<Rightarrow> transpose_col current_board c rs (new_row @ [x]))"

fun transpose_cols :: "board \<Rightarrow> nat \<Rightarrow> nat list \<Rightarrow> board \<Rightarrow> error + board" where
  "transpose_cols current_board row_size [] new_board = Inr new_board"
| "transpose_cols current_board row_size (c # cs) new_board =
     (case transpose_col current_board c [0..<row_size] [] of
        Inl e \<Rightarrow> Inl e
      | Inr new_row \<Rightarrow> transpose_cols current_board row_size cs (new_board @ [new_row]))"

definition transposeBoard :: "board \<Rightarrow> error + board" where
  "transposeBoard current_board =
     (if current_board = [] then Inl IndexError
      else
        let row_size = length current_board;
            col_size = length (current_board ! 0)
        in transpose_cols current_board row_size [0..<col_size] [])"

subsection \<open>updateTheBoardBasedOnTheUserMove\<close>

text \<open>
  The loop of the branches \<open>A\<close> and \<open>W\<close>, and the loop of the branches \<open>D\<close> and \<open>S\<close>
  with its two in-place reversals. After a transposition the board may have fewer rows
  than \<open>row_size\<close>; reading \<open>board[row_index]\<close> then raises.
\<close>

fun slide_loop :: "nat list \<Rightarrow> board \<Rightarrow> error option \<times> board" where
  "slide_loop [] board = (None, board)"
| "slide_loop (row_index # rest) board =
     (if row_index < length board
      then slide_loop rest (board[row_index := slideLeftAndMergeRow (board ! row_index)])
      else (Some IndexError, board))"

fun reverse_slide_loop :: "nat list \<Rightarrow> board \<Rightarrow> error option \<times> board" where
  "reverse_slide_loop [] board = (None, board)"
| "reverse_slide_loop (row_index # rest) board =
     (if row_index < length board
      then
        let board1 = board[row_index := rev (board ! row_index)];
            board2 = board1[row_index := slideLeftAndMergeRow (board1 ! row_index)];
            board3 = board2[row_index := rev (board2 ! row_index)]
        in reverse_slide_loop rest board3
      else (Some IndexError, board))"

text \<open>
  The result is the exception raised, if any, and the value of the global board when the
  function is left. The \<open>print("test")\<close> of branch \<open>A\<close> is not modelled.
\<close>

definition updateTheBoardBasedOnTheUserMove :: "string \<Rightarrow> board \<Rightarrow> error option \<times> board" where
  "updateTheBoardBasedOnTheUserMove move board =
     (if board = [] then (Some IndexError, board)
      else
        let row_size = length board;
            col_size = length (board ! 0)
        in
          if move = ''A'' then slide_loop [0..<row_size] board
          else if move = ''D'' then reverse_slide_loop [0..<row_size] board
          else if move = ''W'' then
            (case transposeBoard board of
               Inl e \<Rightarrow> (Some e, board)
             | Inr board1 \<Rightarrow>
                 (case slide_loop [0..<row_size] board1 of
                    (Some e, board2) \<Rightarrow> (Some e, board2)
                  | (None, board2) \<Rightarrow>
                      (case transposeBoard board2 of
                         Inl e \<Rightarrow> (Some e, board2)
                       | Inr board3 \<Rightarrow> (None, board3))))
          else if move = ''S'' then
            (case transposeBoard board of
               Inl e \<Rightarrow> (Some e, board)
             | Inr board1 \<Rightarrow>
                 (case reverse_slide_loop [0..<row_size] board1 of
                    (Some e, board2) \<Rightarrow> (Some e, board2)
                  | (None, board2) \<Rightarrow>
                      (case transposeBoard board2 of
                         Inl e \<Rightarrow> (Some e, board2)
                       | Inr board3 \<Rightarrow> (None, board3))))
          else (Some RuntimeError, board))"

section \<open>Notions of the specification\<close>

text \<open>A grid of \<open>R\<close> rows and \<open>C\<close> columns: \<open>R\<close> rows, each of \<open>C\<close> cells.\<close>

definition grid :: "nat \<Rightarrow> nat \<Rightarrow> board \<Rightarrow> bool" where
  "grid R C board \<longleftrightarrow> length board = R \<and> list_all (\<lambda>r. length r = C) board"

text \<open>The number of Occupied cells.\<close>

definition occupied_count :: "board \<Rightarrow> nat" where
  "occupied_count board = length (filter (\<lambda>x. x \<noteq> Empty) (concat board))"

text \<open>
  The score of a cell, the columns of a board (what \<open>transposeBoard\<close> returns on a
  grid), and the cells \<open>addANewTwoToBoard\<close> collects.
\<close>

fun cell_val :: "cell \<Rightarrow> int" where
  "cell_val Empty = 0"
| "cell_val (Num v) = v"

definition board_sum :: "board \<Rightarrow> int" where
  "board_sum board = sum_list (map cell_val (concat board))"

definition columns :: "board \<Rightarrow> board" where
  "columns board =
     map (\<lambda>c. map (\<lambda>r. board ! r ! c) [0..<length board]) [0..<length (board ! 0)]"

definition empty_cells_of :: "board \<Rightarrow> (nat \<times> nat) list" where
  "empty_cells_of board =
     concat (map (\<lambda>r. map (Pair r) (filter (\<lambda>c. board ! r ! c = Empty) [0..<length (board ! 0)]))
       [0..<length board])"

text \<open>
  One pass over the compacted line: the leftmost pair of equal neighbours is replaced by
  its double and the scan goes on behind the pair. A line can still merge when two of
  its tiles, with no tile between them, are equal.
\<close>

fun merge_pairs :: "row \<Rightarrow> row" where
  "merge_pairs (x # y # zs) = (if x = y then times2 x # merge_pairs zs else x # merge_pairs (y # zs))"
| "merge_pairs xs = xs"

fun equal_neighbours :: "row \<Rightarrow> bool" where
  "equal_neighbours (x # y # zs) = (x = y \<or> equal_neighbours (y # zs))"
| "equal_neighbours xs = False"

text \<open>
  The lines a move slides along: the rows for \<open>A\<close> and \<open>D\<close>, the columns for
  \<open>W\<close> and \<open>S\<close>.
\<close>

definition lines_of :: "string \<Rightarrow> board \<Rightarrow> row list" where
  "lines_of move board = (if move = ''A'' \<or> move = ''D'' then board else columns board)"

definition has_equal_neighbours :: "string \<Rightarrow> board \<Rightarrow> bool" where
  "has_equal_neighbours move board =
     list_ex (\<lambda>line. equal_neighbours (filter (\<lambda>x. x \<noteq> Empty) line)) (lines_of move board)"

text \<open>
  Two boards to run the program on: the board of the specification's example, and a
  board with no empty cell.
\<close>

definition example_grid :: board where
  "example_grid =
     [[Num 2, Num 2, Num 4, Empty],
      [Empty, Empty, Empty, Empty],
      [Empty, Empty, Empty, Empty],
      [Empty, Empty, Empty, Empty]]"

definition full_grid :: board where
  "full_grid =
     [[Num 2, Num 4, Num 2, Num 4],
      [Num 4, Num 2, Num 4, Num 2],
      [Num 2, Num 4, Num 2, Num 4],
      [Num 4, Num 2, Num 4, Num 2]]"

section \<open>One row\<close>

text \<open>
  The two loops of \<open>slideLeftAndMergeRow\<close> compute the merged line followed by empty
  cells.
\<close>

lemma fill_loop_eq: "fill_loop n final_cell = final_cell @ replicate (n - length final_cell) Empty"
proof (induction n final_cell rule: fill_loop.induct)
  case (1 n final_cell)
  show ?case
  proof (cases "length final_cell < n")
    case True
    then have "n - length final_cell = Suc (n - Suc (length final_cell))" by arith
    with True 1 show ?thesis by (subst fill_loop.simps) (simp add: replicate_app_Cons_same)
  next
    case False
    then show ?thesis by (subst fill_loop.simps) simp
  qed
qed

lemma merge_loop_upt:
  "k \<le> length ne \<Longrightarrow>
     merge_loop ne [k..<length ne] False acc = acc @ merge_pairs (drop k ne)"
proof (induction "length ne - k" arbitrary: k acc rule: less_induct)
  case less
  show ?case
  proof (cases "k < length ne")
    case False
    with less.prems show ?thesis by simp
  next
    case k: True
    then have upt: "[k..<length ne] = k # [Suc k..<length ne]"
      by (simp add: upt_conv_Cons)
    have dk: "drop k ne = ne ! k # drop (Suc k) ne"
      using k by (simp add: Cons_nth_drop_Suc)
    show ?thesis
    proof (cases "Suc k < length ne")
      case False
      with k have "Suc k = length ne" by arith
      then show ?thesis using upt dk by simp
    next
      case sk: True
      then have upt2: "[Suc k..<length ne] = Suc k # [Suc (Suc k)..<length ne]"
        by (simp add: upt_conv_Cons)
      have dsk: "drop (Suc k) ne = ne ! Suc k # drop (Suc (Suc k)) ne"
        using sk by (simp add: Cons_nth_drop_Suc)
      show ?thesis
      proof (cases "ne ! k = ne ! Suc k")
        case True
        have "merge_loop ne [Suc (Suc k)..<length ne] False (acc @ [times2 (ne ! k)])
                = (acc @ [times2 (ne ! k)]) @ merge_pairs (drop (Suc (Suc k)) ne)"
          using sk by (intro less.hyps) auto
        then show ?thesis using True sk upt upt2 dk dsk by simp
      next
        case False
        have "merge_loop ne [Suc k..<length ne] False (acc @ [ne ! k])
                = (acc @ [ne ! k]) @ merge_pairs (drop (Suc k) ne)"
          using sk by (intro less.hyps) auto
        then show ?thesis using False sk upt dk dsk by simp
      qed
    qed
  qed
qed

lemma slideLeftAndMergeRow_eq:
  "slideLeftAndMergeRow row_array =
     merge_pairs (filter (\<lambda>x. x \<noteq> Empty) row_array)
       @ replicate (length row_array - length (merge_pairs (filter (\<lambda>x. x \<noteq> Empty) row_array))) Empty"
  using merge_loop_upt [of 0 "filter (\<lambda>x. x \<noteq> Empty) row_array" "[]"]
  by (simp add: slideLeftAndMergeRow_def fill_loop_eq Let_def)

lemma length_merge_pairs: "length (merge_pairs xs) \<le> length xs"
  by (induction xs rule: merge_pairs.induct) auto

lemma sum_merge_pairs: "sum_list (map cell_val (merge_pairs xs)) = sum_list (map cell_val xs)"
proof (induction xs rule: merge_pairs.induct)
  case (1 x y zs)
  then show ?case by (cases x) auto
qed auto

lemma merge_pairs_no_Empty: "Empty \<notin> set xs \<Longrightarrow> Empty \<notin> set (merge_pairs xs)"
proof (induction xs rule: merge_pairs.induct)
  case (1 x y zs)
  then show ?case by (cases x) auto
qed auto

lemma merge_pairs_id: "\<not> equal_neighbours xs \<Longrightarrow> merge_pairs xs = xs"
  by (induction xs rule: merge_pairs.induct) auto

lemma merge_pairs_shorter: "equal_neighbours xs \<Longrightarrow> length (merge_pairs xs) < length xs"
proof (induction xs rule: merge_pairs.induct)
  case (1 x y zs)
  then show ?case using length_merge_pairs [of zs] by auto
qed auto

lemma merge_pairs_fix_iff: "merge_pairs xs = xs \<longleftrightarrow> \<not> equal_neighbours xs"
  using merge_pairs_id merge_pairs_shorter by (metis less_irrefl)

lemma length_slide [simp]: "length (slideLeftAndMergeRow r) = length r"
proof -
  have "length (merge_pairs (filter (\<lambda>x. x \<noteq> Empty) r)) \<le> length r"
    using length_merge_pairs [of "filter (\<lambda>x. x \<noteq> Empty) r"] length_filter_le [of "\<lambda>x. x \<noteq> Empty" r]
    by arith
  then show ?thesis by (simp add: slideLeftAndMergeRow_eq)
qed

lemma filter_slide:
  "filter (\<lambda>x. x \<noteq> Empty) (slideLeftAndMergeRow r) = merge_pairs (filter (\<lambda>x. x \<noteq> Empty) r)"
proof -
  have "Empty \<notin> set (merge_pairs (filter (\<lambda>x. x \<noteq> Empty) r))"
    by (rule merge_pairs_no_Empty) simp
  then have "filter (\<lambda>x. x \<noteq> Empty) (merge_pairs (filter (\<lambda>x. x \<noteq> Empty) r))
               = merge_pairs (filter (\<lambda>x. x \<noteq> Empty) r)"
    by (auto simp: filter_id_conv)
  then show ?thesis by (simp add: slideLeftAndMergeRow_eq)
qed

lemma sum_slide: "sum_list (map cell_val (slideLeftAndMergeRow r)) = sum_list (map cell_val r)"
proof -
  have "sum_list (map cell_val (filter (\<lambda>x. x \<noteq> Empty) xs)) = sum_list (map cell_val xs)" for xs
    by (induction xs) auto
  then show ?thesis
    by (simp add: slideLeftAndMergeRow_eq sum_merge_pairs sum_list_replicate)
qed

lemma count_slide:
  "length (filter (\<lambda>x. x \<noteq> Empty) (slideLeftAndMergeRow r)) \<le> length (filter (\<lambda>x. x \<noteq> Empty) r)"
  by (simp add: filter_slide length_merge_pairs)

lemma sum_slide_right:
  "sum_list (map cell_val (rev (slideLeftAndMergeRow (rev r)))) = sum_list (map cell_val r)"
proof -
  have "sum_list (map cell_val (rev xs)) = sum_list (map cell_val xs)" for xs
    by (simp add: rev_map [symmetric] sum_list_rev)
  then show ?thesis by (simp add: sum_slide)
qed

lemma count_slide_right:
  "length (filter (\<lambda>x. x \<noteq> Empty) (rev (slideLeftAndMergeRow (rev r))))
     \<le> length (filter (\<lambda>x. x \<noteq> Empty) r)"
  using count_slide [of "rev r"] by (simp add: rev_filter [symmetric])

lemma slide_twice_iff:
  "slideLeftAndMergeRow (slideLeftAndMergeRow r) = slideLeftAndMergeRow r
     \<longleftrightarrow> \<not> equal_neighbours (filter (\<lambda>x. x \<noteq> Empty) (slideLeftAndMergeRow r))"
proof -
  let ?m = "filter (\<lambda>x. x \<noteq> Empty) (slideLeftAndMergeRow r)"
  have s1: "slideLeftAndMergeRow r = ?m @ replicate (length r - length ?m) Empty"
    unfolding filter_slide by (rule slideLeftAndMergeRow_eq)
  have s2: "slideLeftAndMergeRow (slideLeftAndMergeRow r)
              = merge_pairs ?m @ replicate (length r - length (merge_pairs ?m)) Empty"
    using slideLeftAndMergeRow_eq [of "slideLeftAndMergeRow r"] by simp
  show ?thesis
  proof
    assume "slideLeftAndMergeRow (slideLeftAndMergeRow r) = slideLeftAndMergeRow r"
    then have "filter (\<lambda>x. x \<noteq> Empty) (slideLeftAndMergeRow (slideLeftAndMergeRow r)) = ?m"
      by simp
    then have "merge_pairs ?m = ?m" by (simp add: filter_slide)
    then show "\<not> equal_neighbours ?m" by (simp add: merge_pairs_fix_iff)
  next
    assume "\<not> equal_neighbours ?m"
    then have "merge_pairs ?m = ?m" by (simp add: merge_pairs_fix_iff)
    with s1 s2 show "slideLeftAndMergeRow (slideLeftAndMergeRow r) = slideLeftAndMergeRow r"
      by simp
  qed
qed

lemma equal_neighbours_snoc:
  "equal_neighbours (xs @ [a, b]) \<longleftrightarrow> equal_neighbours (xs @ [a]) \<or> a = b"
  by (induction xs rule: equal_neighbours.induct) auto

lemma equal_neighbours_rev: "equal_neighbours (rev xs) = equal_neighbours xs"
proof (induction xs rule: equal_neighbours.induct)
  case (1 x y zs)
  have "rev (x # y # zs) = rev zs @ [y, x]" by simp
  then have "equal_neighbours (rev (x # y # zs))
               \<longleftrightarrow> equal_neighbours (rev zs @ [y]) \<or> y = x"
    by (simp only: equal_neighbours_snoc)
  also have "rev zs @ [y] = rev (y # zs)" by simp
  finally show ?case using 1 by auto
qed simp_all

lemma slide_right_twice_iff:
  "rev (slideLeftAndMergeRow (rev (rev (slideLeftAndMergeRow (rev r)))))
       = rev (slideLeftAndMergeRow (rev r))
     \<longleftrightarrow> \<not> equal_neighbours (filter (\<lambda>x. x \<noteq> Empty) (rev (slideLeftAndMergeRow (rev r))))"
  using slide_twice_iff [of "rev r"]
  by (simp add: rev_filter [symmetric] equal_neighbours_rev)

text \<open>
  C4. \<open>slideLeftAndMergeRow([2,2,4,''])\<close> returns \<open>[4,4,'','']\<close>: the two 2s merge and
  the 4 they produce does not merge with the original 4 in the same pass. And
  \<open>slideLeftAndMergeRow([2,'',2,2])\<close> returns \<open>[4,2,'','']\<close>: the leftmost pair of equal
  tiles merges first.
\<close>

theorem slideLeftAndMergeRow_examples:
  "slideLeftAndMergeRow [Num 2, Num 2, Num 4, Empty] = [Num 4, Num 4, Empty, Empty]
   \<and> slideLeftAndMergeRow [Num 2, Empty, Num 2, Num 2] = [Num 4, Num 2, Empty, Empty]"
  by (simp add: slideLeftAndMergeRow_def upt_conv_Cons fill_loop.simps)

section \<open>Grids\<close>

lemma grid_nth: "grid R C b \<Longrightarrow> r < R \<Longrightarrow> length (b ! r) = C"
  by (auto simp: grid_def list_all_length)

lemma grid_iff: "grid R C b \<longleftrightarrow> length b = R \<and> (\<forall>r<R. length (b ! r) = C)"
  by (auto simp: grid_def list_all_length)

lemma get_cell_grid: "grid R C b \<Longrightarrow> r < R \<Longrightarrow> c < C \<Longrightarrow> get_cell b r c = Inr (b ! r ! c)"
  by (simp add: get_cell_def grid_iff)

lemma grid_eqI:
  assumes "grid R C a" "grid R C b" "\<And>r c. r < R \<Longrightarrow> c < C \<Longrightarrow> a ! r ! c = b ! r ! c"
  shows "a = b"
proof (rule nth_equalityI)
  show "length a = length b" using assms(1,2) by (simp add: grid_iff)
next
  fix r assume "r < length a"
  then have r: "r < R" using assms(1) by (simp add: grid_iff)
  show "a ! r = b ! r"
  proof (rule nth_equalityI)
    show "length (a ! r) = length (b ! r)" using assms(1,2) r by (simp add: grid_iff)
  next
    fix c assume "c < length (a ! r)"
    then have "c < C" using assms(1) r by (simp add: grid_iff)
    then show "a ! r ! c = b ! r ! c" using r by (rule assms(3)[rotated])
  qed
qed

lemma grid_as_map:
  assumes "grid R C b"
  shows "b = map (\<lambda>r. map (\<lambda>c. b ! r ! c) [0..<C]) [0..<R]"
  using assms by (intro grid_eqI [of R C]) (simp_all add: grid_iff)

lemma grid_map:
  "grid R C b \<Longrightarrow> (\<And>r. length (f r) = length r) \<Longrightarrow> grid R C (map f b)"
  by (simp add: grid_iff)

lemma grid_update:
  "grid R C b \<Longrightarrow> grid R C (b[r := (b ! r)[c := v]])"
  by (cases "r < length b") (auto simp: grid_iff nth_list_update)

lemma nth_grid_update:
  "grid R C b \<Longrightarrow> r < R \<Longrightarrow> c < C \<Longrightarrow> r' < R \<Longrightarrow> c' < C \<Longrightarrow>
     b[r := (b ! r)[c := v]] ! r' ! c' = (if (r', c') = (r, c) then v else b ! r' ! c')"
  by (auto simp: grid_iff nth_list_update)

lemma set_cell_grid:
  "grid R C b \<Longrightarrow> r < R \<Longrightarrow> c < C \<Longrightarrow> set_cell b (r, c) v = Inr (b[r := (b ! r)[c := v]])"
  by (simp add: set_cell_def grid_iff)

lemma grid_replicate: "grid R C (replicate R (replicate C x))"
  by (simp add: grid_iff)

lemma length_concat_grid: "grid R C b \<Longrightarrow> length (concat b) = R * C"
  by (induction b arbitrary: R) (auto simp: grid_def)

lemma Empty_in_grid_iff:
  assumes "grid R C b"
  shows "Empty \<in> set (concat b) \<longleftrightarrow> (\<exists>r<R. \<exists>c<C. b ! r ! c = Empty)"
proof
  assume "Empty \<in> set (concat b)"
  then obtain row where row: "row \<in> set b" "Empty \<in> set row" by auto
  then obtain r where r: "r < length b" "b ! r = row" by (auto simp: in_set_conv_nth)
  from row(2) obtain c where c: "c < length row" "row ! c = Empty" by (auto simp: in_set_conv_nth)
  from r c assms show "\<exists>r<R. \<exists>c<C. b ! r ! c = Empty" by (auto simp: grid_iff)
next
  assume "\<exists>r<R. \<exists>c<C. b ! r ! c = Empty"
  then obtain r c where rc: "r < R" "c < C" "b ! r ! c = Empty" by blast
  then have "b ! r \<in> set b" "Empty \<in> set (b ! r)"
    using assms by (auto simp: grid_iff in_set_conv_nth) 
  then show "Empty \<in> set (concat b)" by auto
qed

lemma example_grid_grid: "grid 4 4 example_grid"
  by code_simp

lemma full_grid_grid: "grid 4 4 full_grid"
  by code_simp

text \<open>
  The functions read \<open>len(board[0])\<close> first, so each of them raises on a board with no
  row; a board with rows of no cell is transposed to the board with no row.
\<close>

lemma degenerate_boards:
  "getCurrentScore [] = Inl IndexError"
  "isFull [] = Inl IndexError"
  "addANewTwoToBoard draw [] = (Some IndexError, [])"
  "transposeBoard [] = Inl IndexError"
  "transposeBoard [[]] = Inr []"
  by (simp_all add: getCurrentScore_def isFull_def addANewTwoToBoard_def transposeBoard_def)

section \<open>transposeBoard\<close>

lemma transpose_col_eq:
  "grid R C b \<Longrightarrow> c < C \<Longrightarrow> \<forall>r\<in>set rs. r < R \<Longrightarrow>
     transpose_col b c rs new_row = Inr (new_row @ map (\<lambda>r. b ! r ! c) rs)"
  by (induction rs arbitrary: new_row) (simp_all add: get_cell_grid)

lemma transpose_cols_eq:
  "grid R C b \<Longrightarrow> \<forall>c\<in>set cs. c < C \<Longrightarrow>
     transpose_cols b R cs new_board
       = Inr (new_board @ map (\<lambda>c. map (\<lambda>r. b ! r ! c) [0..<R]) cs)"
  by (induction cs arbitrary: new_board) (simp_all add: transpose_col_eq)

lemma transposeBoard_eq:
  assumes "grid R C b" "0 < R"
  shows "transposeBoard b = Inr (columns b)"
proof -
  from assms have ne: "b \<noteq> []" and len: "length b = R" and l0: "length (b ! 0) = C"
    by (auto simp: grid_iff)
  show ?thesis
    using transpose_cols_eq [OF assms(1), of "[0..<C]" "[]"] ne len l0
    by (simp add: transposeBoard_def columns_def)
qed

lemma grid_columns:
  assumes "grid R C b" "0 < R"
  shows "grid C R (columns b)"
  using assms by (simp add: grid_iff columns_def)

lemma columns_nth:
  "grid R C b \<Longrightarrow> 0 < R \<Longrightarrow> c < C \<Longrightarrow> r < R \<Longrightarrow> columns b ! c ! r = b ! r ! c"
  by (simp add: grid_iff columns_def)

lemma columns_columns:
  assumes "grid R C b" "0 < R" "0 < C"
  shows "columns (columns b) = b"
proof (rule grid_eqI [of R C])
  show "grid R C (columns (columns b))"
    using assms by (intro grid_columns) auto
  show "grid R C b" by fact
next
  fix r c assume rc: "r < R" "c < C"
  have "columns (columns b) ! r ! c = columns b ! c ! r"
    using rc assms grid_columns [OF assms(1,2)] by (simp add: columns_nth)
  then show "columns (columns b) ! r ! c = b ! r ! c"
    using rc assms by (simp add: columns_nth)
qed

lemma columns_inject:
  assumes "grid R C a" "grid R C b" "0 < R" "0 < C" "columns a = columns b"
  shows "a = b"
proof -
  have "a = columns (columns a)"
    using columns_columns [OF assms(1,3,4)] by (rule sym)
  also have "\<dots> = columns (columns b)"
    by (simp only: assms(5))
  also have "\<dots> = b"
    by (rule columns_columns [OF assms(2,3,4)])
  finally show ?thesis .
qed

text \<open>
  C7. Transposing twice is the identity: on every grid of \<open>R\<close> rows and \<open>C\<close> columns,
  with at least one row and one column, \<open>transposeBoard\<close> returns a board and
  \<open>transposeBoard\<close> of that board returns the grid.
\<close>

theorem transposeBoard_involution:
  assumes "grid R C G" and "0 < R" and "0 < C"
  shows "\<exists>T. transposeBoard G = Inr T \<and> transposeBoard T = Inr G"
proof -
  have "transposeBoard G = Inr (columns G)"
    using assms(1,2) by (rule transposeBoard_eq)
  moreover have "transposeBoard (columns G) = Inr (columns (columns G))"
    using grid_columns [OF assms(1,2)] assms(3) by (rule transposeBoard_eq)
  ultimately show ?thesis
    using columns_columns [OF assms] by simp
qed

theorem transposeBoard_involution_witness:
  "grid 4 4 example_grid \<and> (0::nat) < 4
   \<and> (\<exists>T. transposeBoard example_grid = Inr T \<and> transposeBoard T = Inr example_grid)"
proof -
  have p: "(0::nat) < 4" by simp
  from transposeBoard_involution [OF example_grid_grid p p]
  show ?thesis using example_grid_grid by simp
qed

section \<open>Sums and counts over a board\<close>

lemma weight_rows:
  fixes w :: "cell \<Rightarrow> 'a::comm_monoid_add"
  shows "sum_list (map w (concat b)) = sum_list (map (\<lambda>r. sum_list (map w r)) b)"
  by (induction b) simp_all

lemma weight_table:
  fixes w :: "cell \<Rightarrow> 'a::comm_monoid_add"
  shows "sum_list (map w (concat (map (\<lambda>i. map (f i) [0..<m]) [0..<n])))
           = (\<Sum>i = 0..<n. \<Sum>j = 0..<m. w (f i j))"
  by (simp add: weight_rows comp_def interv_sum_list_conv_sum_set_nat)

lemma weight_columns:
  fixes w :: "cell \<Rightarrow> 'a::comm_monoid_add"
  assumes "grid R C b" "0 < R"
  shows "sum_list (map w (concat (columns b))) = sum_list (map w (concat b))"
proof -
  have len: "length b = R" "length (b ! 0) = C" using assms by (auto simp: grid_iff)
  have "sum_list (map w (concat (columns b))) = (\<Sum>c = 0..<C. \<Sum>r = 0..<R. w (b ! r ! c))"
    unfolding columns_def len by (rule weight_table)
  also have "\<dots> = (\<Sum>r = 0..<R. \<Sum>c = 0..<C. w (b ! r ! c))"
    by (rule sum.swap)
  also have "\<dots> = sum_list (map w (concat (map (\<lambda>r. map (\<lambda>c. b ! r ! c) [0..<C]) [0..<R])))"
    by (rule weight_table [symmetric])
  also have "\<dots> = sum_list (map w (concat b))"
    using grid_as_map [OF assms(1)] by simp
  finally show ?thesis .
qed

lemma length_filter_weight:
  "length (filter P xs) = sum_list (map (\<lambda>x. if P x then 1 else 0) xs)"
  by (induction xs) simp_all

lemma occupied_count_rows:
  "occupied_count b = sum_list (map (\<lambda>r. length (filter (\<lambda>x. x \<noteq> Empty) r)) b)"
  unfolding occupied_count_def by (induction b) simp_all

lemma board_sum_rows: "board_sum b = sum_list (map (\<lambda>r. sum_list (map cell_val r)) b)"
  unfolding board_sum_def by (rule weight_rows)

lemma occupied_count_columns:
  "grid R C b \<Longrightarrow> 0 < R \<Longrightarrow> occupied_count (columns b) = occupied_count b"
  unfolding occupied_count_def length_filter_weight by (rule weight_columns)

lemma board_sum_columns:
  "grid R C b \<Longrightarrow> 0 < R \<Longrightarrow> board_sum (columns b) = board_sum b"
  unfolding board_sum_def by (rule weight_columns)

lemma board_sum_map:
  "(\<And>r. sum_list (map cell_val (f r)) = sum_list (map cell_val r)) \<Longrightarrow>
     board_sum (map f b) = board_sum b"
  by (simp add: board_sum_rows comp_def)

lemma occupied_count_map:
  "(\<And>r. length (filter (\<lambda>x. x \<noteq> Empty) (f r)) \<le> length (filter (\<lambda>x. x \<noteq> Empty) r)) \<Longrightarrow>
     occupied_count (map f b) \<le> occupied_count b"
  by (simp add: occupied_count_rows comp_def sum_list_mono)

lemma sum_list_map_update:
  fixes f :: "'a \<Rightarrow> 'b::comm_monoid_add"
  shows "i < length xs \<Longrightarrow>
     sum_list (map f (xs[i := x])) + f (xs ! i) = sum_list (map f xs) + f x"
proof (induction xs arbitrary: i)
  case Nil
  then show ?case by simp
next
  case (Cons a xs)
  show ?case
  proof (cases i)
    case 0
    then show ?thesis by (simp add: ac_simps)
  next
    case (Suc j)
    with Cons.prems have "j < length xs" by simp
    from Cons.IH [OF this] Suc show ?thesis
      by (simp add: add.assoc)
  qed
qed

lemma row_count_update:
  "c < length row \<Longrightarrow> row ! c = Empty \<Longrightarrow>
     length (filter (\<lambda>x. x \<noteq> Empty) (row[c := Num v])) = Suc (length (filter (\<lambda>x. x \<noteq> Empty) row))"
  using sum_list_map_update [of c row "\<lambda>x. if x \<noteq> Empty then 1::nat else 0" "Num v"]
  by (simp add: length_filter_weight)

lemma row_sum_update:
  "c < length row \<Longrightarrow> row ! c = Empty \<Longrightarrow>
     sum_list (map cell_val (row[c := Num v])) = sum_list (map cell_val row) + v"
  using sum_list_map_update [of c row cell_val "Num v"] by simp

lemma occupied_count_update:
  assumes "r < length b" "c < length (b ! r)" "b ! r ! c = Empty"
  shows "occupied_count (b[r := (b ! r)[c := Num v]]) = Suc (occupied_count b)"
  using sum_list_map_update [of r b "\<lambda>r. length (filter (\<lambda>x. x \<noteq> Empty) r)" "(b ! r)[c := Num v]"]
    row_count_update [OF assms(2,3), of v] assms(1)
  by (simp add: occupied_count_rows)

lemma board_sum_update:
  assumes "r < length b" "c < length (b ! r)" "b ! r ! c = Empty"
  shows "board_sum (b[r := (b ! r)[c := Num v]]) = board_sum b + v"
  using sum_list_map_update [of r b "\<lambda>r. sum_list (map cell_val r)" "(b ! r)[c := Num v]"]
    row_sum_update [OF assms(2,3), of v] assms(1)
  by (simp add: board_sum_rows)

lemma occupied_count_replicate: "occupied_count (replicate R (replicate C Empty)) = 0"
  by (simp add: occupied_count_def)

lemma board_sum_replicate: "board_sum (replicate R (replicate C Empty)) = 0"
  by (simp add: board_sum_rows comp_def sum_list_replicate)

lemma length_filter_full: "length (filter P xs) = length xs \<longleftrightarrow> (\<forall>x\<in>set xs. P x)"
proof (induction xs)
  case Nil
  then show ?case by simp
next
  case (Cons a xs)
  show ?case
  proof (cases "P a")
    case True
    with Cons show ?thesis by simp
  next
    case False
    have "length (filter P xs) \<noteq> Suc (length xs)"
      by (metis length_filter_le Suc_n_not_le_n)
    with False show ?thesis by simp
  qed
qed

lemma occupied_count_full_iff:
  "grid R C b \<Longrightarrow> occupied_count b = R * C \<longleftrightarrow> Empty \<notin> set (concat b)"
  using length_filter_full [of "\<lambda>x. x \<noteq> Empty" "concat b"]
  by (auto simp: occupied_count_def length_concat_grid simp del: set_concat)

section \<open>getCurrentScore\<close>

lemma score_cols_eq:
  "grid R C b \<Longrightarrow> r < R \<Longrightarrow> \<forall>c\<in>set cs. c < C \<Longrightarrow>
     score_cols b r cs current_score
       = Inr (current_score + sum_list (map (\<lambda>c. cell_val (b ! r ! c)) cs))"
proof (induction cs arbitrary: current_score)
  case Nil
  then show ?case by simp
next
  case (Cons c cs)
  then show ?case by (cases "b ! r ! c") (simp_all add: get_cell_grid)
qed

lemma score_rows_eq:
  "grid R C b \<Longrightarrow> \<forall>r\<in>set rs. r < R \<Longrightarrow>
     score_rows b C rs current_score
       = Inr (current_score
               + sum_list (map (\<lambda>r. sum_list (map (\<lambda>c. cell_val (b ! r ! c)) [0..<C])) rs))"
  by (induction rs arbitrary: current_score) (simp_all add: score_cols_eq)

lemma getCurrentScore_eq:
  assumes "grid R C b" "0 < R"
  shows "getCurrentScore b = Inr (board_sum b)"
proof -
  have ne: "b \<noteq> []" and len: "length b = R" "length (b ! 0) = C"
    using assms by (auto simp: grid_iff)
  have "board_sum b = board_sum (map (\<lambda>r. map (\<lambda>c. b ! r ! c) [0..<C]) [0..<R])"
    using grid_as_map [OF assms(1)] by simp
  also have "\<dots> = sum_list (map (\<lambda>r. sum_list (map (\<lambda>c. cell_val (b ! r ! c)) [0..<C])) [0..<R])"
    by (simp add: board_sum_rows comp_def)
  finally show ?thesis
    using score_rows_eq [OF assms(1), of "[0..<R]" 0] ne len
    by (simp add: getCurrentScore_def)
qed

section \<open>updateTheBoardBasedOnTheUserMove\<close>

lemma slide_loop_upt:
  "k \<le> length b \<Longrightarrow>
     slide_loop [k..<length b] b = (None, take k b @ map slideLeftAndMergeRow (drop k b))"
proof (induction "length b - k" arbitrary: k b)
  case 0
  then show ?case by simp
next
  case (Suc n)
  then have k: "k < length b" by arith
  let ?b = "b[k := slideLeftAndMergeRow (b ! k)]"
  have "slide_loop [Suc k..<length ?b] ?b
          = (None, take (Suc k) ?b @ map slideLeftAndMergeRow (drop (Suc k) ?b))"
    using Suc.hyps(2) k by (intro Suc.hyps(1)) auto
  moreover have "take (Suc k) ?b = take k b @ [slideLeftAndMergeRow (b ! k)]"
    using k by (simp add: take_Suc_conv_app_nth)
  moreover have "drop k b = b ! k # drop (Suc k) b"
    using k by (simp add: Cons_nth_drop_Suc)
  ultimately show ?case using k by (simp add: upt_conv_Cons)
qed

lemma reverse_slide_loop_upt:
  "k \<le> length b \<Longrightarrow>
     reverse_slide_loop [k..<length b] b
       = (None, take k b @ map (\<lambda>r. rev (slideLeftAndMergeRow (rev r))) (drop k b))"
proof (induction "length b - k" arbitrary: k b)
  case 0
  then show ?case by simp
next
  case (Suc n)
  then have k: "k < length b" by arith
  let ?b = "b[k := rev (slideLeftAndMergeRow (rev (b ! k)))]"
  have "reverse_slide_loop [Suc k..<length ?b] ?b
          = (None, take (Suc k) ?b @ map (\<lambda>r. rev (slideLeftAndMergeRow (rev r))) (drop (Suc k) ?b))"
    using Suc.hyps(2) k by (intro Suc.hyps(1)) auto
  moreover have "take (Suc k) ?b = take k b @ [rev (slideLeftAndMergeRow (rev (b ! k)))]"
    using k by (simp add: take_Suc_conv_app_nth)
  moreover have "drop k b = b ! k # drop (Suc k) b"
    using k by (simp add: Cons_nth_drop_Suc)
  ultimately show ?case using k by (simp add: upt_conv_Cons Let_def)
qed

lemma slide_loop_all: "slide_loop [0..<length b] b = (None, map slideLeftAndMergeRow b)"
  using slide_loop_upt [of 0 b] by simp

lemma reverse_slide_loop_all:
  "reverse_slide_loop [0..<length b] b = (None, map (\<lambda>r. rev (slideLeftAndMergeRow (rev r))) b)"
  using reverse_slide_loop_upt [of 0 b] by simp

lemma update_A:
  "b \<noteq> [] \<Longrightarrow> updateTheBoardBasedOnTheUserMove ''A'' b = (None, map slideLeftAndMergeRow b)"
  by (simp add: updateTheBoardBasedOnTheUserMove_def slide_loop_all)

lemma update_D:
  "b \<noteq> [] \<Longrightarrow> updateTheBoardBasedOnTheUserMove ''D'' b
     = (None, map (\<lambda>r. rev (slideLeftAndMergeRow (rev r))) b)"
  by (simp add: updateTheBoardBasedOnTheUserMove_def reverse_slide_loop_all)

lemma update_W:
  assumes "grid N N b" "0 < N"
  shows "updateTheBoardBasedOnTheUserMove ''W'' b
           = (None, columns (map slideLeftAndMergeRow (columns b)))"
proof -
  have ne: "b \<noteq> []" and len: "length b = N" using assms by (auto simp: grid_iff)
  have g1: "grid N N (columns b)" using assms by (rule grid_columns)
  then have len1: "length (columns b) = N" by (simp add: grid_iff)
  have g2: "grid N N (map slideLeftAndMergeRow (columns b))"
    using g1 by (rule grid_map) simp
  have s: "slide_loop [0..<N] (columns b) = (None, map slideLeftAndMergeRow (columns b))"
    using slide_loop_all [of "columns b"] len1 by simp
  show ?thesis
    using ne len s transposeBoard_eq [OF assms] transposeBoard_eq [OF g2 assms(2)]
    by (simp add: updateTheBoardBasedOnTheUserMove_def)
qed

lemma update_S:
  assumes "grid N N b" "0 < N"
  shows "updateTheBoardBasedOnTheUserMove ''S'' b
           = (None, columns (map (\<lambda>r. rev (slideLeftAndMergeRow (rev r))) (columns b)))"
proof -
  have ne: "b \<noteq> []" and len: "length b = N" using assms by (auto simp: grid_iff)
  have g1: "grid N N (columns b)" using assms by (rule grid_columns)
  then have len1: "length (columns b) = N" by (simp add: grid_iff)
  have g2: "grid N N (map (\<lambda>r. rev (slideLeftAndMergeRow (rev r))) (columns b))"
    using g1 by (rule grid_map) simp
  have s: "reverse_slide_loop [0..<N] (columns b)
             = (None, map (\<lambda>r. rev (slideLeftAndMergeRow (rev r))) (columns b))"
    using reverse_slide_loop_all [of "columns b"] len1 by simp
  show ?thesis
    using ne len s transposeBoard_eq [OF assms] transposeBoard_eq [OF g2 assms(2)]
    by (simp add: updateTheBoardBasedOnTheUserMove_def)
qed

lemma update_grid:
  assumes "grid N N b" "0 < N" "move \<in> {''A'', ''D'', ''W'', ''S''}"
  shows "fst (updateTheBoardBasedOnTheUserMove move b) = None
         \<and> grid N N (snd (updateTheBoardBasedOnTheUserMove move b))"
proof -
  have ne: "b \<noteq> []" using assms by (auto simp: grid_iff)
  have g1: "grid N N (columns b)" using assms(1,2) by (rule grid_columns)
  have "grid N N (map slideLeftAndMergeRow b)"
    "grid N N (map (\<lambda>r. rev (slideLeftAndMergeRow (rev r))) b)"
    "grid N N (columns (map slideLeftAndMergeRow (columns b)))"
    "grid N N (columns (map (\<lambda>r. rev (slideLeftAndMergeRow (rev r))) (columns b)))"
    using assms(1,2) g1 by (auto intro!: grid_columns grid_map)
  then show ?thesis
    using assms(3) ne update_A [OF ne] update_D [OF ne] update_W [OF assms(1,2)] update_S [OF assms(1,2)]
    by auto
qed

lemma update_board_sum:
  assumes "grid N N b" "0 < N" "move \<in> {''A'', ''D'', ''W'', ''S''}"
  shows "board_sum (snd (updateTheBoardBasedOnTheUserMove move b)) = board_sum b"
proof -
  have ne: "b \<noteq> []" using assms by (auto simp: grid_iff)
  have g1: "grid N N (columns b)" using assms(1,2) by (rule grid_columns)
  have a: "board_sum (map slideLeftAndMergeRow b') = board_sum b'" for b'
    by (rule board_sum_map) (rule sum_slide)
  have d: "board_sum (map (\<lambda>r. rev (slideLeftAndMergeRow (rev r))) b') = board_sum b'" for b'
    by (rule board_sum_map) (rule sum_slide_right)
  have w: "board_sum (columns (map slideLeftAndMergeRow (columns b))) = board_sum b"
  proof -
    have "grid N N (map slideLeftAndMergeRow (columns b))"
      using g1 by (rule grid_map) simp
    then show ?thesis
      using assms(1,2) by (simp add: board_sum_columns a)
  qed
  have s: "board_sum (columns (map (\<lambda>r. rev (slideLeftAndMergeRow (rev r))) (columns b))) = board_sum b"
  proof -
    have "grid N N (map (\<lambda>r. rev (slideLeftAndMergeRow (rev r))) (columns b))"
      using g1 by (rule grid_map) simp
    then show ?thesis
      using assms(1,2) by (simp add: board_sum_columns d)
  qed
  show ?thesis
    using assms(3) a d w s update_A [OF ne] update_D [OF ne] update_W [OF assms(1,2)] update_S [OF assms(1,2)]
    by auto
qed

lemma update_occupied_count:
  assumes "grid N N b" "0 < N" "move \<in> {''A'', ''D'', ''W'', ''S''}"
  shows "occupied_count (snd (updateTheBoardBasedOnTheUserMove move b)) \<le> occupied_count b"
proof -
  have ne: "b \<noteq> []" using assms by (auto simp: grid_iff)
  have g1: "grid N N (columns b)" using assms(1,2) by (rule grid_columns)
  have a: "occupied_count (map slideLeftAndMergeRow b') \<le> occupied_count b'" for b'
    by (rule occupied_count_map) (rule count_slide)
  have d: "occupied_count (map (\<lambda>r. rev (slideLeftAndMergeRow (rev r))) b') \<le> occupied_count b'" for b'
    by (rule occupied_count_map) (rule count_slide_right)
  have w: "occupied_count (columns (map slideLeftAndMergeRow (columns b))) \<le> occupied_count b"
  proof -
    have "grid N N (map slideLeftAndMergeRow (columns b))"
      using g1 by (rule grid_map) simp
    then show ?thesis
      using assms(1,2) a [of "columns b"] by (simp add: occupied_count_columns)
  qed
  have s: "occupied_count (columns (map (\<lambda>r. rev (slideLeftAndMergeRow (rev r))) (columns b)))
             \<le> occupied_count b"
  proof -
    have "grid N N (map (\<lambda>r. rev (slideLeftAndMergeRow (rev r))) (columns b))"
      using g1 by (rule grid_map) simp
    then show ?thesis
      using assms(1,2) d [of "columns b"] by (simp add: occupied_count_columns)
  qed
  show ?thesis
    using assms(3) a d w s update_A [OF ne] update_D [OF ne] update_W [OF assms(1,2)] update_S [OF assms(1,2)]
    by auto
qed

text \<open>
  C1. On every 4x4 grid and for every move among \<open>A\<close>, \<open>D\<close>, \<open>W\<close> and \<open>S\<close>,
  \<open>updateTheBoardBasedOnTheUserMove\<close> returns normally and \<open>getCurrentScore\<close> returns the
  same sum on the board after the move as on the board before it.
\<close>

theorem move_preserves_score:
  assumes "grid 4 4 G" and "move \<in> {''A'', ''D'', ''W'', ''S''}"
  shows "\<exists>G' s. updateTheBoardBasedOnTheUserMove move G = (None, G')
           \<and> getCurrentScore G = Inr s \<and> getCurrentScore G' = Inr s"
proof -
  obtain e G' where u: "updateTheBoardBasedOnTheUserMove move G = (e, G')"
    by (cases "updateTheBoardBasedOnTheUserMove move G")
  have "e = None" "grid 4 4 G'"
    using update_grid [OF assms(1) _ assms(2)] u by simp_all
  moreover have "board_sum G' = board_sum G"
    using update_board_sum [OF assms(1) _ assms(2)] u by simp
  ultimately show ?thesis
    using u assms(1) by (simp add: getCurrentScore_eq [of 4 4])
qed

theorem move_preserves_score_witness:
  "grid 4 4 example_grid \<and> ''W'' \<in> {''A'', ''D'', ''W'', ''S''}
   \<and> getCurrentScore example_grid = Inr 8
   \<and> getCurrentScore (snd (updateTheBoardBasedOnTheUserMove ''W'' example_grid)) = Inr 8"
proof -
  have m: "''W'' \<in> {''A'', ''D'', ''W'', ''S''}" by simp
  have s: "getCurrentScore example_grid = Inr 8" by code_simp
  from move_preserves_score [OF example_grid_grid m] s show ?thesis
    using example_grid_grid by auto
qed

text \<open>
  C2. On every 4x4 grid and for every move among \<open>A\<close>, \<open>D\<close>, \<open>W\<close> and \<open>S\<close>, the
  number of Occupied cells after \<open>updateTheBoardBasedOnTheUserMove\<close> is at most the
  number before.
\<close>

theorem move_never_adds_tiles:
  assumes "grid 4 4 G" and "move \<in> {''A'', ''D'', ''W'', ''S''}"
  shows "\<exists>G'. updateTheBoardBasedOnTheUserMove move G = (None, G')
           \<and> occupied_count G' \<le> occupied_count G"
proof -
  obtain e G' where u: "updateTheBoardBasedOnTheUserMove move G = (e, G')"
    by (cases "updateTheBoardBasedOnTheUserMove move G")
  have "e = None"
    using update_grid [OF assms(1) _ assms(2)] u by simp
  moreover have "occupied_count G' \<le> occupied_count G"
    using update_occupied_count [OF assms(1) _ assms(2)] u by simp
  ultimately show ?thesis using u by simp
qed

theorem move_never_adds_tiles_witness:
  "grid 4 4 example_grid \<and> ''D'' \<in> {''A'', ''D'', ''W'', ''S''}
   \<and> occupied_count example_grid = 3
   \<and> occupied_count (snd (updateTheBoardBasedOnTheUserMove ''D'' example_grid)) \<le> 3"
proof -
  have m: "''D'' \<in> {''A'', ''D'', ''W'', ''S''}" by simp
  have s: "occupied_count example_grid = 3" by code_simp
  from move_never_adds_tiles [OF example_grid_grid m] s show ?thesis
    using example_grid_grid by auto
qed

subsection \<open>The same move twice\<close>

lemma twice_rows:
  assumes "\<And>r. h (h r) = h r \<longleftrightarrow> \<not> equal_neighbours (filter (\<lambda>x. x \<noteq> Empty) (h r))"
  shows "map h (map h b) = map h b
           \<longleftrightarrow> \<not> list_ex (\<lambda>line. equal_neighbours (filter (\<lambda>x. x \<noteq> Empty) line)) (map h b)"
  using assms by (simp add: list_ex_iff)

lemma twice_columns:
  assumes g: "grid N N b" and N: "0 < N"
    and len: "\<And>r. length (h r) = length r"
    and h: "\<And>r. h (h r) = h r \<longleftrightarrow> \<not> equal_neighbours (filter (\<lambda>x. x \<noteq> Empty) (h r))"
  shows "columns (map h (columns (columns (map h (columns b))))) = columns (map h (columns b))
           \<longleftrightarrow> \<not> list_ex (\<lambda>line. equal_neighbours (filter (\<lambda>x. x \<noteq> Empty) line))
                   (columns (columns (map h (columns b))))"
proof -
  let ?M = "map h (columns b)"
  have gM: "grid N N ?M"
    using grid_columns [OF g N] len by (rule grid_map)
  have cc: "columns (columns ?M) = ?M"
    using gM N N by (rule columns_columns)
  have gMM: "grid N N (map h ?M)"
    using gM len by (rule grid_map)
  have "columns (map h ?M) = columns ?M \<longleftrightarrow> map h ?M = ?M"
  proof
    assume "columns (map h ?M) = columns ?M"
    then show "map h ?M = ?M" by (rule columns_inject [OF gMM gM N N])
  next
    assume "map h ?M = ?M"
    then show "columns (map h ?M) = columns ?M" by (rule arg_cong)
  qed
  moreover have "map h ?M = ?M
      \<longleftrightarrow> \<not> list_ex (\<lambda>line. equal_neighbours (filter (\<lambda>x. x \<noteq> Empty) line)) ?M"
    by (rule twice_rows [of h "columns b", OF h])
  ultimately show ?thesis
    unfolding cc by (rule trans)
qed

text \<open>
  C3, as the program has it. The same move applied a second time, with no spawn in
  between, may merge again: the row \<open>[2,2,4,'']\<close> becomes \<open>[4,4,'','']\<close> and then
  \<open>[8,'','','']\<close>. On every 4x4 grid and for every move among \<open>A\<close>, \<open>D\<close>, \<open>W\<close> and
  \<open>S\<close>, the second application leaves the once-moved grid unchanged exactly when no
  line of that grid along the move (a row for \<open>A\<close> and \<open>D\<close>, a column for \<open>W\<close> and
  \<open>S\<close>) holds two equal tiles with no tile between them.
\<close>

theorem second_move_fixed_iff:
  assumes "grid 4 4 G" and "move \<in> {''A'', ''D'', ''W'', ''S''}"
  shows "\<exists>G1 G2. updateTheBoardBasedOnTheUserMove move G = (None, G1)
           \<and> updateTheBoardBasedOnTheUserMove move G1 = (None, G2)
           \<and> (G2 = G1 \<longleftrightarrow> \<not> has_equal_neighbours move G1)"
proof -
  have N: "0 < (4::nat)" by simp
  have ne: "G \<noteq> []" using assms(1) by (auto simp: grid_iff)
  obtain G1 where u1: "updateTheBoardBasedOnTheUserMove move G = (None, G1)" and g1: "grid 4 4 G1"
    using update_grid [OF assms(1) N assms(2)]
    by (cases "updateTheBoardBasedOnTheUserMove move G") auto
  have ne1: "G1 \<noteq> []" using g1 by (auto simp: grid_iff)
  obtain G2 where u2: "updateTheBoardBasedOnTheUserMove move G1 = (None, G2)"
    using update_grid [OF g1 N assms(2)]
    by (cases "updateTheBoardBasedOnTheUserMove move G1") auto
  have "G2 = G1 \<longleftrightarrow> \<not> has_equal_neighbours move G1"
  proof -
    consider "move = ''A''" | "move = ''D''" | "move = ''W''" | "move = ''S''"
      using assms(2) by auto
    then show ?thesis
    proof cases
      case 1
      then show ?thesis
        using u1 u2 update_A [OF ne] update_A [OF ne1]
          twice_rows [of slideLeftAndMergeRow G, OF slide_twice_iff]
        by (simp add: has_equal_neighbours_def lines_of_def)
    next
      case 2
      then show ?thesis
        using u1 u2 update_D [OF ne] update_D [OF ne1]
          twice_rows [of "\<lambda>r. rev (slideLeftAndMergeRow (rev r))" G, OF slide_right_twice_iff]
        by (simp add: has_equal_neighbours_def lines_of_def)
    next
      case 3
      then show ?thesis
        using u1 u2 update_W [OF assms(1) N] update_W [OF g1 N]
          twice_columns [of 4 G slideLeftAndMergeRow, OF assms(1) N length_slide slide_twice_iff]
        by (simp add: has_equal_neighbours_def lines_of_def)
    next
      case 4
      have len: "length (rev (slideLeftAndMergeRow (rev r))) = length r" for r by simp
      from 4 show ?thesis
        using u1 u2 update_S [OF assms(1) N] update_S [OF g1 N]
          twice_columns [of 4 G "\<lambda>r. rev (slideLeftAndMergeRow (rev r))",
            OF assms(1) N len slide_right_twice_iff]
        by (simp add: has_equal_neighbours_def lines_of_def)
    qed
  qed
  with u1 u2 show ?thesis by blast
qed

theorem second_move_fixed_iff_witness:
  "grid 4 4 example_grid \<and> ''A'' \<in> {''A'', ''D'', ''W'', ''S''}
   \<and> has_equal_neighbours ''A'' (snd (updateTheBoardBasedOnTheUserMove ''A'' example_grid))"
  using second_move_fixed_iff [of example_grid "''A''"]
  by (auto simp: example_grid_def grid_def updateTheBoardBasedOnTheUserMove_def
      slideLeftAndMergeRow_def fill_loop.simps upt_conv_Cons has_equal_neighbours_def lines_of_def)

text \<open>
  C3, as the specification states it, fails on the board of the specification's own
  example: moving left twice does not give the board of moving left once.
\<close>

theorem second_move_counterexample:
  "grid 4 4 example_grid
   \<and> updateTheBoardBasedOnTheUserMove ''A'' example_grid
       = (None, [[Num 4, Num 4, Empty, Empty],
                 [Empty, Empty, Empty, Empty],
                 [Empty, Empty, Empty, Empty],
                 [Empty, Empty, Empty, Empty]])
   \<and> updateTheBoardBasedOnTheUserMove ''A''
        (snd (updateTheBoardBasedOnTheUserMove ''A'' example_grid))
       = (None, [[Num 8, Empty, Empty, Empty],
                 [Empty, Empty, Empty, Empty],
                 [Empty, Empty, Empty, Empty],
                 [Empty, Empty, Empty, Empty]])
   \<and> snd (updateTheBoardBasedOnTheUserMove ''A''
        (snd (updateTheBoardBasedOnTheUserMove ''A'' example_grid)))
       \<noteq> snd (updateTheBoardBasedOnTheUserMove ''A'' example_grid)"
  by code_simp

text \<open>
  C9. For every string other than \<open>A\<close>, \<open>D\<close>, \<open>W\<close> and \<open>S\<close> and every board,
  \<open>updateTheBoardBasedOnTheUserMove\<close> raises (RuntimeError, or IndexError on the board
  with no row) and leaves the board as it was.
\<close>

theorem invalid_move_raises:
  assumes "move \<notin> {''A'', ''D'', ''W'', ''S''}"
  shows "updateTheBoardBasedOnTheUserMove move board
           = (Some (if board = [] then IndexError else RuntimeError), board)"
  using assms by (simp add: updateTheBoardBasedOnTheUserMove_def)

theorem invalid_move_raises_witness:
  "''Q'' \<notin> {''A'', ''D'', ''W'', ''S''}
   \<and> updateTheBoardBasedOnTheUserMove ''Q'' example_grid = (Some RuntimeError, example_grid)
   \<and> updateTheBoardBasedOnTheUserMove ''Q'' [] = (Some IndexError, [])"
proof -
  have m: "''Q'' \<notin> {''A'', ''D'', ''W'', ''S''}" by simp
  have n: "example_grid \<noteq> []" by (simp add: example_grid_def)
  from invalid_move_raises [OF m, of example_grid] invalid_move_raises [OF m, of "[]"]
  show ?thesis using m n by simp
qed

section \<open>addANewTwoToBoard\<close>

lemma collect_cols_eq:
  "grid R C b \<Longrightarrow> r < R \<Longrightarrow> \<forall>c\<in>set cs. c < C \<Longrightarrow>
     collect_cols b r cs empty_cells
       = Inr (empty_cells @ map (Pair r) (filter (\<lambda>c. b ! r ! c = Empty) cs))"
  by (induction cs arbitrary: empty_cells) (simp_all add: get_cell_grid)

lemma collect_rows_eq:
  "grid R C b \<Longrightarrow> \<forall>r\<in>set rs. r < R \<Longrightarrow>
     collect_rows b C rs empty_cells
       = Inr (empty_cells
               @ concat (map (\<lambda>r. map (Pair r) (filter (\<lambda>c. b ! r ! c = Empty) [0..<C])) rs))"
  by (induction rs arbitrary: empty_cells) (simp_all add: collect_cols_eq)

lemma set_empty_cells_of:
  assumes "grid R C b" "0 < R"
  shows "set (empty_cells_of b) = {(r, c). r < R \<and> c < C \<and> b ! r ! c = Empty}"
proof -
  have "length b = R" "length (b ! 0) = C" using assms by (auto simp: grid_iff)
  then show ?thesis by (auto simp: empty_cells_of_def)
qed

lemma empty_cells_of_Nil_iff:
  assumes "grid R C b" "0 < R"
  shows "empty_cells_of b = [] \<longleftrightarrow> Empty \<notin> set (concat b)"
proof -
  have "empty_cells_of b = [] \<longleftrightarrow> set (empty_cells_of b) = {}" by simp
  also have "\<dots> \<longleftrightarrow> \<not> (\<exists>r<R. \<exists>c<C. b ! r ! c = Empty)"
    unfolding set_empty_cells_of [OF assms] by auto
  finally show ?thesis using Empty_in_grid_iff [OF assms(1)] by simp
qed

lemma random_choice_in: "xs \<noteq> [] \<Longrightarrow> random_choice draw xs \<in> set xs"
  by (simp add: random_choice_def)

lemma addANewTwoToBoard_eq:
  assumes "grid R C b" "0 < R"
  shows "addANewTwoToBoard draw b =
           (if empty_cells_of b = [] then (None, b)
            else case random_choice draw (empty_cells_of b) of
                   (r, c) \<Rightarrow> (None, b[r := (b ! r)[c := Num 2]]))"
proof -
  have ne: "b \<noteq> []" and len: "length b = R" "length (b ! 0) = C"
    using assms by (auto simp: grid_iff)
  have col: "collect_rows b C [0..<R] [] = Inr (empty_cells_of b)"
    using collect_rows_eq [OF assms(1), of "[0..<R]" "[]"] len by (simp add: empty_cells_of_def)
  show ?thesis
  proof (cases "empty_cells_of b = []")
    case True
    then show ?thesis using ne len col by (simp add: addANewTwoToBoard_def)
  next
    case False
    obtain r c where rc: "random_choice draw (empty_cells_of b) = (r, c)"
      by (cases "random_choice draw (empty_cells_of b)")
    then have "(r, c) \<in> set (empty_cells_of b)"
      using random_choice_in [OF False, of draw] by simp
    then have "r < R" "c < C" using set_empty_cells_of [OF assms] by auto
    then show ?thesis
      using False ne len col rc set_cell_grid [OF assms(1), of r c "Num 2"]
      by (simp add: addANewTwoToBoard_def)
  qed
qed

lemma addANewTwoToBoard_cases:
  assumes "grid R C b" "0 < R"
  shows "(Empty \<notin> set (concat b) \<and> addANewTwoToBoard draw b = (None, b))
         \<or> (\<exists>r c. r < R \<and> c < C \<and> b ! r ! c = Empty
               \<and> addANewTwoToBoard draw b = (None, b[r := (b ! r)[c := Num 2]]))"
proof (cases "empty_cells_of b = []")
  case True
  then show ?thesis
    using addANewTwoToBoard_eq [OF assms, of draw] empty_cells_of_Nil_iff [OF assms] by simp
next
  case False
  obtain r c where rc: "random_choice draw (empty_cells_of b) = (r, c)"
    by (cases "random_choice draw (empty_cells_of b)")
  then have "(r, c) \<in> set (empty_cells_of b)"
    using random_choice_in [OF False, of draw] by simp
  then have "r < R \<and> c < C \<and> b ! r ! c = Empty"
    using set_empty_cells_of [OF assms] by auto
  then show ?thesis
    using False rc addANewTwoToBoard_eq [OF assms, of draw] by auto
qed

text \<open>
  Every empty cell is the outcome of some draw.
\<close>

lemma every_empty_cell_can_be_drawn:
  assumes "grid R C b" "0 < R" "r < R" "c < C" "b ! r ! c = Empty"
  shows "\<exists>draw. addANewTwoToBoard draw b = (None, b[r := (b ! r)[c := Num 2]])"
proof -
  have "(r, c) \<in> set (empty_cells_of b)"
    using set_empty_cells_of [OF assms(1,2)] assms(3-5) by simp
  then obtain i where i: "i < length (empty_cells_of b)" "empty_cells_of b ! i = (r, c)"
    by (auto simp: in_set_conv_nth)
  then have "random_choice i (empty_cells_of b) = (r, c)" by (simp add: random_choice_def)
  moreover have "empty_cells_of b \<noteq> []" using i by auto
  ultimately have "addANewTwoToBoard i b = (None, b[r := (b ! r)[c := Num 2]])"
    using addANewTwoToBoard_eq [OF assms(1,2), of i] by simp
  then show ?thesis ..
qed

text \<open>
  C5. On every grid, whatever the draw: when no cell is empty \<open>addANewTwoToBoard\<close>
  returns normally and leaves the board unchanged; when some cell is empty it puts the
  value 2 on a cell that was empty, and the number of Occupied cells grows by exactly 1.
\<close>

theorem spawn_adds_one_two:
  assumes "grid R C b" and "0 < R"
  shows "(Empty \<notin> set (concat b) \<longrightarrow> addANewTwoToBoard draw b = (None, b))
         \<and> (Empty \<in> set (concat b) \<longrightarrow>
              (\<exists>r c. r < R \<and> c < C \<and> b ! r ! c = Empty
                 \<and> addANewTwoToBoard draw b = (None, b[r := (b ! r)[c := Num 2]])
                 \<and> snd (addANewTwoToBoard draw b) ! r ! c = Num 2)
              \<and> occupied_count (snd (addANewTwoToBoard draw b)) = occupied_count b + 1)"
proof (cases "Empty \<in> set (concat b)")
  case False
  then show ?thesis using addANewTwoToBoard_cases [OF assms, of draw]
    using Empty_in_grid_iff [OF assms(1)] by auto
next
  case True
  then obtain r c where rc: "r < R" "c < C" "b ! r ! c = Empty"
    and a: "addANewTwoToBoard draw b = (None, b[r := (b ! r)[c := Num 2]])"
    using addANewTwoToBoard_cases [OF assms, of draw] by auto
  have lens: "r < length b" "c < length (b ! r)" using assms(1) rc by (auto simp: grid_iff)
  have "b[r := (b ! r)[c := Num 2]] ! r ! c = Num 2"
    using nth_grid_update [OF assms(1) rc(1,2) rc(1,2)] by simp
  moreover have "occupied_count (b[r := (b ! r)[c := Num 2]]) = occupied_count b + 1"
    using occupied_count_update [OF lens rc(3)] by simp
  ultimately show ?thesis using True rc a by auto
qed

theorem spawn_adds_one_two_witness:
  "grid 4 4 example_grid \<and> grid 4 4 full_grid \<and> (0::nat) < 4
   \<and> Empty \<in> set (concat example_grid) \<and> Empty \<notin> set (concat full_grid)
   \<and> occupied_count example_grid = 3
   \<and> occupied_count (snd (addANewTwoToBoard 7 example_grid)) = 4
   \<and> addANewTwoToBoard 7 full_grid = (None, full_grid)"
proof -
  have p: "(0::nat) < 4" by simp
  have e: "Empty \<in> set (concat example_grid)" by code_simp
  have f: "Empty \<notin> set (concat full_grid)" by code_simp
  have s: "occupied_count example_grid = 3" by code_simp
  from spawn_adds_one_two [OF example_grid_grid p, of 7] spawn_adds_one_two [OF full_grid_grid p, of 7]
  show ?thesis using example_grid_grid full_grid_grid e f s by simp
qed

text \<open>
  C10. On every grid with an empty cell, whatever the draw, \<open>addANewTwoToBoard\<close>
  changes exactly one cell, which was empty before; every other cell, and so every cell
  that was Occupied, keeps its value at its position, and the board keeps its shape.
\<close>

theorem spawn_frame:
  assumes "grid R C b" and "0 < R" and "Empty \<in> set (concat b)"
  shows "\<exists>b' r c. addANewTwoToBoard draw b = (None, b') \<and> grid R C b'
           \<and> r < R \<and> c < C \<and> b ! r ! c = Empty \<and> b' ! r ! c \<noteq> b ! r ! c
           \<and> (\<forall>r'<R. \<forall>c'<C. (r', c') \<noteq> (r, c) \<longrightarrow> b' ! r' ! c' = b ! r' ! c')
           \<and> (\<forall>r'<R. \<forall>c'<C. b ! r' ! c' \<noteq> Empty \<longrightarrow> b' ! r' ! c' = b ! r' ! c')"
proof -
  obtain r c where rc: "r < R" "c < C" "b ! r ! c = Empty"
    and a: "addANewTwoToBoard draw b = (None, b[r := (b ! r)[c := Num 2]])"
    using addANewTwoToBoard_cases [OF assms(1,2), of draw] assms(3) by auto
  let ?b = "b[r := (b ! r)[c := Num 2]]"
  have g: "grid R C ?b" using assms(1) by (rule grid_update)
  have n: "?b ! r' ! c' = (if (r', c') = (r, c) then Num 2 else b ! r' ! c')"
    if "r' < R" "c' < C" for r' c'
    using nth_grid_update [OF assms(1) rc(1,2) that] .
  have "?b ! r ! c \<noteq> b ! r ! c" using n [OF rc(1,2)] rc(3) by simp
  moreover have "\<forall>r'<R. \<forall>c'<C. (r', c') \<noteq> (r, c) \<longrightarrow> ?b ! r' ! c' = b ! r' ! c'"
    using n by simp
  moreover have "\<forall>r'<R. \<forall>c'<C. b ! r' ! c' \<noteq> Empty \<longrightarrow> ?b ! r' ! c' = b ! r' ! c'"
    using n rc(3) by auto
  ultimately show ?thesis using a g rc by blast
qed

theorem spawn_frame_witness:
  "grid 4 4 example_grid \<and> (0::nat) < 4 \<and> Empty \<in> set (concat example_grid)
   \<and> fst (addANewTwoToBoard 7 example_grid) = None
   \<and> grid 4 4 (snd (addANewTwoToBoard 7 example_grid))"
proof -
  have p: "(0::nat) < 4" by simp
  have e: "Empty \<in> set (concat example_grid)" by code_simp
  from spawn_frame [OF example_grid_grid p e, of 7]
  show ?thesis using example_grid_grid e by auto
qed

section \<open>isFull\<close>

lemma full_cols_eq:
  "grid R C b \<Longrightarrow> r < R \<Longrightarrow> \<forall>c\<in>set cs. c < C \<Longrightarrow>
     full_cols b r cs = Inr (\<forall>c\<in>set cs. b ! r ! c \<noteq> Empty)"
  by (induction cs) (simp_all add: get_cell_grid)

lemma full_rows_eq:
  "grid R C b \<Longrightarrow> \<forall>r\<in>set rs. r < R \<Longrightarrow>
     full_rows b C rs = Inr (\<forall>r\<in>set rs. \<forall>c<C. b ! r ! c \<noteq> Empty)"
  by (induction rs) (auto simp: full_cols_eq split: bool.splits)

lemma isFull_eq:
  assumes "grid R C b" "0 < R"
  shows "isFull b = Inr (Empty \<notin> set (concat b))"
proof -
  have ne: "b \<noteq> []" and len: "length b = R" "length (b ! 0) = C"
    using assms by (auto simp: grid_iff)
  have "isFull b = Inr (\<forall>r<R. \<forall>c<C. b ! r ! c \<noteq> Empty)"
    using full_rows_eq [OF assms(1), of "[0..<R]"] ne len by (auto simp: isFull_def)
  then show ?thesis using Empty_in_grid_iff [OF assms(1)] by auto
qed

text \<open>
  C6. On every grid of \<open>R\<close> rows and \<open>C\<close> columns, \<open>isFull\<close> returns True if and only if
  the number of Occupied cells is \<open>R * C\<close>, that is, if and only if no cell is empty.
\<close>

theorem isFull_iff_all_occupied:
  assumes "grid R C b" and "0 < R"
  shows "isFull b = Inr (occupied_count b = R * C)
         \<and> (occupied_count b = R * C \<longleftrightarrow> Empty \<notin> set (concat b))"
  using isFull_eq [OF assms] occupied_count_full_iff [OF assms(1)] by simp

theorem isFull_iff_all_occupied_witness:
  "grid 4 4 example_grid \<and> grid 4 4 full_grid \<and> (0::nat) < 4
   \<and> isFull example_grid = Inr False \<and> isFull full_grid = Inr True"
proof -
  have p: "(0::nat) < 4" by simp
  have s: "occupied_count example_grid = 3" "occupied_count full_grid = 16" by code_simp+
  from isFull_iff_all_occupied [OF example_grid_grid p] isFull_iff_all_occupied [OF full_grid_grid p]
  show ?thesis using example_grid_grid full_grid_grid s by simp
qed

section \<open>init\<close>

lemma init_rows_initial:
  "init_rows [0..<4] [] = replicate 4 (replicate 4 Empty)"
  by (simp add: upt_conv_Cons numeral_eq_Suc)

lemma random_sample2_distinct:
  "\<exists>n0 n1. random_sample2 draw1 draw2 = [n0, n1] \<and> n0 < 16 \<and> n1 < 16 \<and> n0 \<noteq> n1"
proof -
  let ?n0 = "random_choice draw1 [0..<16]"
  let ?rest = "remove1 ?n0 [0..<16]"
  have n0: "?n0 \<in> set [0..<16]" by (rule random_choice_in) simp
  have "length ?rest = 15" using n0 by (simp add: length_remove1)
  then have "?rest \<noteq> []" by auto
  then have "random_choice draw2 ?rest \<in> set ?rest" by (rule random_choice_in)
  then have "random_choice draw2 ?rest \<in> set [0..<16] - {?n0}" by simp
  then show ?thesis using n0 by (auto simp: random_sample2_def Let_def)
qed

text \<open>
  C8. Whatever the two draws of the sampling, \<open>init\<close> on the module's initial board
  returns normally and leaves a 4x4 board on which two distinct positions hold the value
  2 and every other cell is empty: exactly two Occupied cells, and \<open>getCurrentScore\<close>
  returns 4.
\<close>

theorem init_two_twos:
  "\<exists>B p q. init draw1 draw2 initial_board = (None, B) \<and> grid 4 4 B
     \<and> fst p < 4 \<and> snd p < 4 \<and> fst q < 4 \<and> snd q < 4 \<and> p \<noteq> q
     \<and> (\<forall>r<4. \<forall>c<4. B ! r ! c = (if (r, c) = p \<or> (r, c) = q then Num 2 else Empty))
     \<and> occupied_count B = 2 \<and> getCurrentScore B = Inr 4"
proof -
  obtain n0 n1 where s: "random_sample2 draw1 draw2 = [n0, n1]"
    and n: "n0 < 16" "n1 < 16" "n0 \<noteq> n1"
    using random_sample2_distinct by blast
  let ?E = "replicate 4 (replicate 4 Empty) :: board"
  let ?r0 = "n0 div 4" and ?c0 = "n0 mod 4" and ?r1 = "n1 div 4" and ?c1 = "n1 mod 4"
  let ?B1 = "?E[?r0 := (?E ! ?r0)[?c0 := Num 2]]"
  let ?B = "?B1[?r1 := (?B1 ! ?r1)[?c1 := Num 2]]"
  have b: "?r0 < 4" "?c0 < 4" "?r1 < 4" "?c1 < 4" using n by auto
  have ne: "(?r0, ?c0) \<noteq> (?r1, ?c1)"
  proof
    assume "(?r0, ?c0) = (?r1, ?c1)"
    then have "n0 div 4 = n1 div 4" "n0 mod 4 = n1 mod 4" by simp_all
    then have "n0 = n1" by (metis div_mult_mod_eq)
    with n(3) show False by simp
  qed
  have gE: "grid 4 4 ?E" by (rule grid_replicate)
  have g1: "grid 4 4 ?B1" using gE by (rule grid_update)
  have g: "grid 4 4 ?B" using g1 by (rule grid_update)
  have E: "?E ! r ! c = Empty" if "r < 4" "c < 4" for r c using that by simp
  have c1: "?B1 ! r ! c = (if (r, c) = (?r0, ?c0) then Num 2 else Empty)"
    if "r < 4" "c < 4" for r c
    using nth_grid_update [OF gE b(1,2) that] E [OF that] by simp
  have c2: "?B ! r ! c = (if (r, c) = (?r0, ?c0) \<or> (r, c) = (?r1, ?c1) then Num 2 else Empty)"
    if "r < 4" "c < 4" for r c
    using nth_grid_update [OF g1 b(3,4) that] c1 [OF that] by auto
  have l0: "?r0 < length ?E" "?c0 < length (?E ! ?r0)" using b by simp_all
  have l1: "?r1 < length ?B1" "?c1 < length (?B1 ! ?r1)"
    using g1 b by (simp_all add: grid_iff)
  have e1: "?B1 ! ?r1 ! ?c1 = Empty" using c1 [OF b(3,4)] ne by auto
  have cnt1: "occupied_count ?B1 = 1"
    using occupied_count_update [OF l0 E [OF b(1,2)], of 2] occupied_count_replicate [of 4 4]
    by simp
  have cnt: "occupied_count ?B = 2"
    using occupied_count_update [OF l1 e1, of 2] cnt1 by simp
  have sum1: "board_sum ?B1 = 2"
    using board_sum_update [OF l0 E [OF b(1,2)], of 2] board_sum_replicate [of 4 4] by simp
  have sum: "board_sum ?B = 4"
    using board_sum_update [OF l1 e1, of 2] sum1 by simp
  have score: "getCurrentScore ?B = Inr 4"
    using getCurrentScore_eq [OF g] sum by simp
  have run: "init draw1 draw2 initial_board = (None, ?B)"
    using s set_cell_grid [OF gE b(1,2), of "Num 2"] set_cell_grid [OF g1 b(3,4), of "Num 2"]
    by (simp add: init_def initial_board_def init_rows_initial Let_def)
  have cells: "\<forall>r<4. \<forall>c<4. ?B ! r ! c
      = (if (r, c) = (?r0, ?c0) \<or> (r, c) = (?r1, ?c1) then Num 2 else Empty)"
    using c2 by blast
  show ?thesis
    apply (rule exI [of _ ?B])
    apply (rule exI [of _ "(?r0, ?c0)"])
    apply (rule exI [of _ "(?r1, ?c1)"])
    using run g b ne cells cnt score by simp
qed

theorem init_two_twos_witness:
  "\<exists>B. init 5 9 initial_board = (None, B) \<and> grid 4 4 B
     \<and> occupied_count B = 2 \<and> getCurrentScore B = Inr 4"
  using init_two_twos [of 5 9] by blast

text \<open>
  One run of \<open>init\<close>: the draws 5 and 9 sample the numbers 5 and 10.
\<close>

lemma init_example:
  "init 5 9 initial_board
     = (None, [[Empty, Empty, Empty, Empty],
               [Empty, Num 2, Empty, Empty],
               [Empty, Empty, Num 2, Empty],
               [Empty, Empty, Empty, Empty]])"
  by code_simp

end
